theory Spec2Isabelle
  imports Main
begin

section \<open>Strings\<close>

text \<open>
  A JavaScript string is a sequence of UTF-16 code units; here a \<open>string\<close> is the list of
  its code units, so \<open>length\<close> is \<open>.length\<close>. The separator is the one-unit string \<open>'/'\<close>.
\<close>

type_synonym S3BucketName = string
type_synonym S3Key = string

definition sep :: char where
  "sep = CHR ''/''"

text \<open>\<open>s.endsWith(t)\<close>.\<close>

definition endsWith :: "string \<Rightarrow> string \<Rightarrow> bool" where
  "endsWith s t = (length t \<le> length s \<and> drop (length s - length t) s = t)"

text \<open>\<open>s.lastIndexOf(c)\<close> for a one-unit search string: the last position of \<open>c\<close>, or -1.\<close>

fun lastIndexOf :: "string \<Rightarrow> char \<Rightarrow> int" where
  "lastIndexOf [] c = -1"
| "lastIndexOf (x # xs) c =
     (let r = lastIndexOf xs c in
      if r \<noteq> -1 then r + 1 else if x = c then 0 else -1)"

text \<open>\<open>s.substring(i)\<close>: a negative start counts as 0, a start beyond the end gives \<open>''\<close>.\<close>

definition substring :: "string \<Rightarrow> int \<Rightarrow> string" where
  "substring s i = drop (nat i) s"

text \<open>\<open>s.slice(n)\<close> for a start \<open>n \<ge> 0\<close> (the only use passes a \<open>.length\<close>).\<close>

definition slice :: "string \<Rightarrow> nat \<Rightarrow> string" where
  "slice s n = drop n s"

text \<open>Truthiness of an optional boolean: \<open>undefined\<close> and \<open>false\<close> are falsy.\<close>

fun truthy :: "bool option \<Rightarrow> bool" where
  "truthy (Some b) = b"
| "truthy None = False"

section \<open>Errors\<close>

text \<open>
  Every value the code can throw. \<open>ClientError\<close> is whatever \<open>s3Client.send\<close> rejects with,
  \<open>WriterError\<close> whatever the archiver throws, \<open>PlainError\<close> a \<open>new Error(message)\<close> made by the
  module itself, \<open>TypeError\<close> the runtime's own. The four classes of the module keep their names;
  the two that take \<open>e\<close> carry it as \<open>originalError\<close>.
\<close>

datatype err =
    ClientError string
  | WriterError string
  | PlainError string
  | TypeError string
  | NoS3ClientProvidedForBucketError S3BucketName
  | FailedToGetS3ObjectStreamError S3Key err
  | InvalidS3KeyError S3Key
  | FailedToListObjectsError S3Key err

section \<open>Entries\<close>

text \<open>
  \<open>S3ArchiveStreamEntry\<close>: a file entry (it has \<open>s3Key\<close>) or a directory entry (it has \<open>s3Dir\<close>).
  \<open>'m\<close> is the rest of archiver's \<open>EntryData\<close>, passed through untouched.
\<close>

datatype 'm S3ArchiveStreamEntry =
    FileEntry (f_name: "string option") (f_s3BucketName: S3BucketName) (f_s3Key: S3Key)
              (f_preserveFolderStructure: "bool option") (f_rest: 'm)
  | DirEntry (d_s3BucketName: S3BucketName) (d_s3Dir: S3Key)
             (d_preserveFolderStructure: "bool option") (d_rest: 'm)

fun s3BucketName :: "'m S3ArchiveStreamEntry \<Rightarrow> S3BucketName" where
  "s3BucketName (FileEntry n b k p r) = b"
| "s3BucketName (DirEntry b d p r) = b"

section \<open>Names inside the archive\<close>

text \<open>Line 118: the prefix used for listing and for stripping.\<close>

definition dirPrefix :: "S3Key \<Rightarrow> S3Key" where
  "dirPrefix s3Dir = (if endsWith s3Dir [sep] then s3Dir else s3Dir @ [sep])"

text \<open>Line 142: the name given to a key found under a directory.\<close>

definition dirArchiveEntryName :: "bool option \<Rightarrow> S3Key \<Rightarrow> S3Key \<Rightarrow> string" where
  "dirArchiveEntryName preserveFolderStructure prefix Key =
     (if truthy preserveFolderStructure then Key else slice Key (length prefix))"

text \<open>Lines 189-190: the name a file entry is appended under.\<close>

definition fileArchiveEntryName :: "string option \<Rightarrow> bool option \<Rightarrow> S3Key \<Rightarrow> string" where
  "fileArchiveEntryName name preserveFolderStructure s3Key =
     (case name of
        Some n \<Rightarrow> n
      | None \<Rightarrow> (if truthy preserveFolderStructure then s3Key
                 else substring s3Key (lastIndexOf s3Key sep + 1)))"

section \<open>The S3 client and the archiver\<close>

text \<open>
  The fields of \<open>ListObjectsV2CommandOutput\<close> the code reads; each may be \<open>undefined\<close>.
  \<open>Contents\<close> holds the \<open>Key\<close> of every listed object, itself optional.
\<close>

record ListObjectsV2CommandOutput =
  ContinuationToken :: "string option"
  KeyCount :: "int option"
  NextContinuationToken :: "string option"
  Contents :: "string option list option"
  IsTruncated :: "bool option"

text \<open>The \<open>Body\<close> of a \<open>GetObjectCommand\<close> output: a \<open>Readable\<close> with its bytes, or something else.\<close>

datatype body = Readable string | NotReadable

text \<open>
  \<open>s3Client.send\<close> per command: the answer of the store to a request, \<open>Inl\<close> when the promise
  rejects. The store answers the same request the same way during one build.
\<close>

record S3Client =
  listObjectsV2 :: "S3BucketName \<Rightarrow> S3Key \<Rightarrow> string option \<Rightarrow> string + ListObjectsV2CommandOutput"
  getObject :: "S3BucketName \<Rightarrow> S3Key \<Rightarrow> string + body option"

text \<open>The commands sent, in the order they are sent.\<close>

datatype command =
    ListObjectsV2Command S3BucketName S3Key "string option"
  | GetObjectCommand S3BucketName S3Key

text \<open>One \<open>archive.append(source, data)\<close>: the stream, the name, the rest of the entry data.\<close>

record 'm appended =
  source :: string
  entry_name :: string
  entry_data :: 'm

text \<open>
  The archiver is not part of the module. What the code can observe of it: \<open>append\<close> may throw,
  and the promise of \<open>finalize\<close> may reject.
\<close>

record 'm archiver =
  append_throws :: "'m appended \<Rightarrow> string option"
  finalize_rejects :: "string option"

text \<open>
  What one run of \<open>appendArchiveEntries\<close> did: the commands sent, the entries appended, and how
  the promise settled (\<open>Inr ()\<close> resolved, \<open>Inl e\<close> rejected with \<open>e\<close>, \<open>None\<close> not settled within
  the fuel of the pagination loop).
\<close>

record 'm run =
  calls :: "command list"
  appended :: "'m appended list"
  result :: "(err + unit) option"

definition resolved :: "'m run" where
  "resolved = \<lparr>calls = [], appended = [], result = Some (Inr ())\<rparr>"

definition rejected :: "command list \<Rightarrow> err \<Rightarrow> 'm run" where
  "rejected cs e = \<lparr>calls = cs, appended = [], result = Some (Inl e)\<rparr>"

text \<open>Sequencing of two awaited steps: the second runs only when the first resolved.\<close>

definition then_run :: "'m run \<Rightarrow> 'm run \<Rightarrow> 'm run" where
  "then_run r1 r2 =
     (case result r1 of
        Some (Inr u) \<Rightarrow> \<lparr>calls = calls r1 @ calls r2, appended = appended r1 @ appended r2,
                         result = result r2\<rparr>
      | _ \<Rightarrow> r1)"

section \<open>appendArchiveEntries\<close>

text \<open>Lines 140-152: the entries pushed for one page of a listing.\<close>

definition keep_key :: "string option \<Rightarrow> bool" where
  "keep_key Key = (case Key of None \<Rightarrow> False | Some k \<Rightarrow> \<not> endsWith k [sep] \<and> k \<noteq> [])"

definition pageEntries ::
  "S3BucketName \<Rightarrow> S3Key \<Rightarrow> bool option \<Rightarrow> 'm \<Rightarrow> ListObjectsV2CommandOutput \<Rightarrow> 'm S3ArchiveStreamEntry list" where
  "pageEntries bucket prefix preserveFolderStructure rest resp =
     map (\<lambda>Key. FileEntry (Some (dirArchiveEntryName preserveFolderStructure prefix (the Key)))
                           bucket (the Key) None rest)
         (filter keep_key (case Contents resp of None \<Rightarrow> [] | Some cs \<Rightarrow> cs))"

definition empty_directory :: err where
  "empty_directory = PlainError ''The provided directory is empty.''"

text \<open>
  Lines 124-161, the \<open>while (true)\<close> over the pages. The loop ends only when a page is not
  truncated or a step throws, so it takes fuel: \<open>None\<close> is a loop still running after that many
  pages. Every throw inside the \<open>try\<close> leaves as a \<open>FailedToListObjectsError\<close>.
\<close>

fun listLoop ::
  "nat \<Rightarrow> S3Client \<Rightarrow> S3BucketName \<Rightarrow> S3Key \<Rightarrow> bool option \<Rightarrow> 'm \<Rightarrow> string option \<Rightarrow>
   'm S3ArchiveStreamEntry list \<Rightarrow> command list \<times> (err + 'm S3ArchiveStreamEntry list) option" where
  "listLoop 0 s3Client bucket prefix pfs rest continuationToken directoryEntries = ([], None)"
| "listLoop (Suc fuel) s3Client bucket prefix pfs rest continuationToken directoryEntries =
     (let cmd = ListObjectsV2Command bucket prefix continuationToken in
      case listObjectsV2 s3Client bucket prefix continuationToken of
        Inl m \<Rightarrow> ([cmd], Some (Inl (FailedToListObjectsError prefix (ClientError m))))
      | Inr resp \<Rightarrow>
          if ContinuationToken resp = None \<and> KeyCount resp = Some 0
          then ([cmd], Some (Inl (FailedToListObjectsError prefix empty_directory)))
          else
            let directoryEntries' = directoryEntries @ pageEntries bucket prefix pfs rest resp in
            if \<not> truthy (IsTruncated resp) then ([cmd], Some (Inr directoryEntries'))
            else
              (case listLoop fuel s3Client bucket prefix pfs rest (NextContinuationToken resp)
                      directoryEntries' of
                 (cs, r) \<Rightarrow> (cmd # cs, r)))"

definition stream_invalid :: err where
  "stream_invalid = PlainError ''S3 Object stream is null or not a Readable stream.''"

text \<open>Lines 167-196, the branch of a file entry.\<close>

definition appendFileEntry ::
  "'m archiver \<Rightarrow> S3Client \<Rightarrow> string option \<Rightarrow> S3BucketName \<Rightarrow> S3Key \<Rightarrow> bool option \<Rightarrow> 'm \<Rightarrow> 'm run" where
  "appendFileEntry archive s3Client name bucket s3Key pfs rest =
     (if s3Key = [] \<or> endsWith s3Key [sep] then rejected [] (InvalidS3KeyError s3Key)
      else
        let cmd = GetObjectCommand bucket s3Key in
        case getObject s3Client bucket s3Key of
          Inl m \<Rightarrow> rejected [cmd] (FailedToGetS3ObjectStreamError s3Key (ClientError m))
        | Inr None \<Rightarrow> rejected [cmd] (FailedToGetS3ObjectStreamError s3Key stream_invalid)
        | Inr (Some NotReadable) \<Rightarrow>
            rejected [cmd] (FailedToGetS3ObjectStreamError s3Key stream_invalid)
        | Inr (Some (Readable s3ObjectStream)) \<Rightarrow>
            let item = \<lparr>source = s3ObjectStream,
                        entry_name = fileArchiveEntryName name pfs s3Key,
                        entry_data = rest\<rparr> in
            (case append_throws archive item of
               Some m \<Rightarrow> rejected [cmd] (FailedToGetS3ObjectStreamError s3Key (WriterError m))
             | None \<Rightarrow> \<lparr>calls = [cmd], appended = [item], result = Some (Inr ())\<rparr>))"

fun is_dir :: "'m S3ArchiveStreamEntry \<Rightarrow> bool" where
  "is_dir (DirEntry b d p r) = True"
| "is_dir (FileEntry n b k p r) = False"

text \<open>
  Lines 111-199. A directory entry is listed, then the function calls itself on the entries
  found, then goes on with the rest of its own list.
\<close>

function appendArchiveEntries ::
  "nat \<Rightarrow> 'm archiver \<Rightarrow> S3Client \<Rightarrow> 'm S3ArchiveStreamEntry list \<Rightarrow> 'm run" where
  "appendArchiveEntries fuel archive s3Client [] = resolved"
| "appendArchiveEntries fuel archive s3Client (DirEntry bucket s3Dir pfs rest # archiveEntries) =
     (case listLoop fuel s3Client bucket (dirPrefix s3Dir) pfs rest None [] of
        (cs, None) \<Rightarrow> \<lparr>calls = cs, appended = [], result = None\<rparr>
      | (cs, Some (Inl e)) \<Rightarrow> rejected cs e
      | (cs, Some (Inr directoryEntries)) \<Rightarrow>
          then_run \<lparr>calls = cs, appended = [], result = Some (Inr ())\<rparr>
            (then_run (appendArchiveEntries fuel archive s3Client directoryEntries)
                      (appendArchiveEntries fuel archive s3Client archiveEntries)))"
| "appendArchiveEntries fuel archive s3Client (FileEntry name bucket s3Key pfs rest # archiveEntries) =
     then_run (appendFileEntry archive s3Client name bucket s3Key pfs rest)
              (appendArchiveEntries fuel archive s3Client archiveEntries)"
  by pat_completeness auto
termination
proof (relation "inv_image (less_than <*lex*> less_than)
        (\<lambda>(fuel, archive, s3Client, es). (length (filter is_dir es), length es))")
  have files_only: "filter is_dir des = []"
    if "listLoop fuel c b p pfs rest tok acc = (cs, Some (Inr des))" and "filter is_dir acc = []"
    for fuel c b p pfs and rest :: 'a and tok acc cs des
    using that
  proof (induction fuel arbitrary: tok acc cs)
    case 0
    then show ?case by simp
  next
    case (Suc fuel)
    then show ?case
      by (auto simp: Let_def pageEntries_def filter_map o_def
               split: sum.splits if_splits prod.splits)
  qed
  show "((fuel, archive, s3Client, directoryEntries),
         (fuel, archive, s3Client, DirEntry bucket s3Dir pfs rest # archiveEntries))
        \<in> inv_image (less_than <*lex*> less_than)
            (\<lambda>(fuel, archive, s3Client, es). (length (filter is_dir es), length es))"
    if "(cs, r) = listLoop fuel s3Client bucket (dirPrefix s3Dir) pfs rest None []"
      and "r = Some e" and "e = Inr directoryEntries"
    for fuel and archive :: "'a archiver" and s3Client bucket s3Dir pfs and rest :: 'a
      and archiveEntries cs r e directoryEntries
    using files_only [of fuel s3Client bucket "dirPrefix s3Dir" pfs rest None "[]" cs directoryEntries] that
    by simp
qed auto

section \<open>s3ArchiveStream\<close>

text \<open>
  Lines 202-208. \<open>acc\<close> starts as the object literal \<open>{}\<close>, kept here as the list of its own
  properties in insertion order. \<open>acc[k]\<close> on a key that is not an own property reads
  \<open>Object.prototype\<close>: for the keys below it is a function or an object, so it is not \<open>null\<close>,
  no array is stored, and \<open>.push\<close> is not callable.
\<close>

definition objectPrototypeKeys :: "string list" where
  "objectPrototypeKeys =
     [''constructor'', ''__defineGetter__'', ''__defineSetter__'', ''hasOwnProperty'',
      ''__lookupGetter__'', ''__lookupSetter__'', ''isPrototypeOf'', ''propertyIsEnumerable'',
      ''toString'', ''valueOf'', ''__proto__'', ''toLocaleString'']"

definition push_not_a_function :: err where
  "push_not_a_function = TypeError ''acc[val.s3BucketName].push is not a function''"

definition groupStep ::
  "(S3BucketName \<times> 'm S3ArchiveStreamEntry list) list \<Rightarrow> 'm S3ArchiveStreamEntry \<Rightarrow>
   err + (S3BucketName \<times> 'm S3ArchiveStreamEntry list) list" where
  "groupStep acc val =
     (let b = s3BucketName val in
      case map_of acc b of
        Some es \<Rightarrow> Inr (map (\<lambda>(k, v). if k = b then (k, v @ [val]) else (k, v)) acc)
      | None \<Rightarrow>
          if b \<in> set objectPrototypeKeys then Inl push_not_a_function
          else Inr (acc @ [(b, [val])]))"

fun reduceGroups ::
  "(S3BucketName \<times> 'm S3ArchiveStreamEntry list) list \<Rightarrow> 'm S3ArchiveStreamEntry list \<Rightarrow>
   err + (S3BucketName \<times> 'm S3ArchiveStreamEntry list) list" where
  "reduceGroups acc [] = Inr acc"
| "reduceGroups acc (val # vals) =
     (case groupStep acc val of Inl e \<Rightarrow> Inl e | Inr acc' \<Rightarrow> reduceGroups acc' vals)"

definition groupedS3Buckets ::
  "'m S3ArchiveStreamEntry list \<Rightarrow> err + (S3BucketName \<times> 'm S3ArchiveStreamEntry list) list" where
  "groupedS3Buckets entries = reduceGroups [] entries"

text \<open>
  \<open>Object.entries\<close>: the keys that are array indices (canonical decimal numerals below
  \<open>2^32 - 1\<close>) come first in ascending order, the other keys follow in insertion order.
\<close>

definition digitsValue :: "string \<Rightarrow> int" where
  "digitsValue s = foldl (\<lambda>n c. 10 * n + (of_char c - 48)) 0 s"

definition isArrayIndex :: "string \<Rightarrow> bool" where
  "isArrayIndex s =
     (s \<noteq> [] \<and> list_all (\<lambda>c. c \<in> set ''0123456789'') s \<and>
      (s = ''0'' \<or> hd s \<noteq> CHR ''0'') \<and> digitsValue s < 2 ^ 32 - 1)"

definition Object_entries :: "(string \<times> 'v) list \<Rightarrow> (string \<times> 'v) list" where
  "Object_entries props =
     sort_key (\<lambda>(k, v). digitsValue k) (filter (\<lambda>(k, v). isArrayIndex k) props)
     @ filter (\<lambda>(k, v). \<not> isArrayIndex k) props"

text \<open>
  \<open>clientOrClients\<close>: one \<open>S3Client\<close>, or a record from bucket name to \<open>S3Client\<close>.
  Lines 215-219 pick the client of a bucket.
\<close>

datatype clients = OneClient S3Client | ClientRecord "S3BucketName \<Rightarrow> S3Client option"

definition clientFor :: "clients \<Rightarrow> S3BucketName \<Rightarrow> err + S3Client" where
  "clientFor clientOrClients bucket =
     (case clientOrClients of
        OneClient c \<Rightarrow> Inr c
      | ClientRecord m \<Rightarrow>
          (case m bucket of
             Some c \<Rightarrow> Inr c
           | None \<Rightarrow> Inl (NoS3ClientProvidedForBucketError bucket)))"

text \<open>Lines 213-222: the task of one bucket.\<close>

definition groupTask ::
  "nat \<Rightarrow> 'm archiver \<Rightarrow> clients \<Rightarrow> S3BucketName \<Rightarrow> 'm S3ArchiveStreamEntry list \<Rightarrow> 'm run" where
  "groupTask fuel archive clientOrClients bucket archiveEntries =
     (case clientFor clientOrClients bucket of
        Inl e \<Rightarrow> rejected [] e
      | Inr client \<Rightarrow> appendArchiveEntries fuel archive client archiveEntries)"

text \<open>
  Lines 212-229. The tasks run concurrently; what \<open>Promise.all\<close> sees of that is the order in
  which they settle, given here as \<open>sched\<close>, a list of bucket names (tasks it does not name
  settle afterwards, in the order they were started). \<open>Promise.all\<close> rejects with the first
  rejection in that order and resolves when every task resolved; it stays pending when no task
  rejects and one never settles.
\<close>

datatype writer_op = Finalize | Destroy err | Abort

definition settleOrder :: "S3BucketName list \<Rightarrow> (S3BucketName \<times> 'r) list \<Rightarrow> (S3BucketName \<times> 'r) list" where
  "settleOrder sched tasks =
     concat (map (\<lambda>b. filter (\<lambda>(k, r). k = b) tasks) (remdups sched))
     @ filter (\<lambda>(k, r). k \<notin> set sched) tasks"

fun firstRejection :: "(S3BucketName \<times> 'm run) list \<Rightarrow> err option" where
  "firstRejection [] = None"
| "firstRejection ((k, r) # rs) =
     (case result r of Some (Inl e) \<Rightarrow> Some e | _ \<Rightarrow> firstRejection rs)"

definition allResolved :: "(S3BucketName \<times> 'm run) list \<Rightarrow> bool" where
  "allResolved tasks = list_all (\<lambda>(k, r). result r = Some (Inr ())) tasks"

definition promiseChain ::
  "'m archiver \<Rightarrow> S3BucketName list \<Rightarrow> (S3BucketName \<times> 'm run) list \<Rightarrow> writer_op list" where
  "promiseChain archive sched tasks =
     (case firstRejection (settleOrder sched tasks) of
        Some e \<Rightarrow> [Destroy e, Abort]
      | None \<Rightarrow>
          if allResolved tasks
          then Finalize # (case finalize_rejects archive of
                             None \<Rightarrow> []
                           | Some m \<Rightarrow> [Destroy (WriterError m), Abort])
          else [])"

text \<open>
  The build: \<open>Inl\<close> is an exception thrown out of \<open>s3ArchiveStream\<close> itself; \<open>Inr\<close> is the
  returned archive with what each task did and the calls made on the writer.
\<close>

record 'm build =
  tasks :: "(S3BucketName \<times> 'm run) list"
  writer_ops :: "writer_op list"

definition s3ArchiveStream ::
  "nat \<Rightarrow> 'm archiver \<Rightarrow> S3BucketName list \<Rightarrow> clients \<Rightarrow> 'm S3ArchiveStreamEntry list \<Rightarrow>
   err + 'm build" where
  "s3ArchiveStream fuel archive sched clientOrClients entries =
     (case groupedS3Buckets entries of
        Inl e \<Rightarrow> Inl e
      | Inr groups \<Rightarrow>
          let ts = map (\<lambda>(bucket, archiveEntries).
                          (bucket, groupTask fuel archive clientOrClients bucket archiveEntries))
                       (Object_entries groups)
          in Inr \<lparr>tasks = ts, writer_ops = promiseChain archive sched ts\<rparr>)"

section \<open>What a listing is\<close>





section \<open>Stores and archivers used as examples\<close>

text \<open>
  A store as the mocks of the tests build it: the body of an object is
  \<open>bucket/key\<close>. Its listing of any prefix has two pages, joined by the token \<open>t1\<close>.
\<close>

definition page1 :: ListObjectsV2CommandOutput where
  "page1 = \<lparr>ContinuationToken = None, KeyCount = Some 2, NextContinuationToken = Some ''t1'',
            Contents = Some [Some ''folder1/'', Some ''folder1/file1.txt''],
            IsTruncated = Some True\<rparr>"

definition page2 :: ListObjectsV2CommandOutput where
  "page2 = \<lparr>ContinuationToken = Some ''t1'', KeyCount = Some 1, NextContinuationToken = None,
            Contents = Some [Some ''folder1/folder2/file2.txt''],
            IsTruncated = Some False\<rparr>"

definition pagedStore :: S3Client where
  "pagedStore =
     \<lparr>listObjectsV2 = (\<lambda>bucket prefix tok.
         if tok = None then Inr page1
         else if tok = Some ''t1'' then Inr page2
         else Inl ''InvalidArgument''),
      getObject = (\<lambda>bucket key. Inr (Some (Readable (bucket @ ''/'' @ key))))\<rparr>"



text \<open>
  An archiver that accepts everything, and an archive that is already aborted when the entries
  reach it (another task rejected first, lines 226-229): every \<open>append\<close> on it throws the
  archiver's \<open>QUEUECLOSED\<close> error.
\<close>

definition quietArchiver :: "unit archiver" where
  "quietArchiver = \<lparr>append_throws = (\<lambda>item. None), finalize_rejects = None\<rparr>"


section \<open>The archive writer of the specification\<close>

text \<open>
  Modelled from the spec: the archive writer, which is the archiver package and not under
  src/. The specification gives it \<open>append\<close> and \<open>finalize\<close> that return nothing and have no
  failure of their own.
\<close>

definition specWriter :: "'m archiver" where
  "specWriter = \<lparr>append_throws = (\<lambda>item. None), finalize_rejects = None\<rparr>"

text \<open>
  Modelled from the spec: how the output stream of the archive writer ends. Finalizing makes
  the writer flush the trailing metadata and end its stream with the terminal success signal,
  the container holding what was appended; destroying or aborting ends it in an error state;
  a writer that got neither is still accepting entries.
\<close>

datatype 'm stream_end =
    AcceptingEntries
  | Closed "'m appended list"
  | Aborted "err option"

fun streamEnd :: "writer_op list \<Rightarrow> 'm appended list \<Rightarrow> 'm stream_end" where
  "streamEnd [] container = AcceptingEntries"
| "streamEnd (Finalize # ops) container =
     (case streamEnd ops container of AcceptingEntries \<Rightarrow> Closed container | s \<Rightarrow> s)"
| "streamEnd (Destroy e # ops) container = Aborted (Some e)"
| "streamEnd (Abort # ops) container = Aborted None"

definition streamOf :: "'m build \<Rightarrow> 'm stream_end" where
  "streamOf bld = streamEnd (writer_ops bld) (concat (map (\<lambda>(k, r). appended r) (tasks bld)))"

section \<open>Properties\<close>

subsection \<open>String helpers\<close>

lemma lastIndexOf_absent: "c \<notin> set s \<Longrightarrow> lastIndexOf s c = -1"
  by (induction s) (auto simp: Let_def)

lemma lastIndexOf_last: "c \<notin> set seg \<Longrightarrow> lastIndexOf (pre @ c # seg) c = int (length pre)"
  by (induction pre) (simp_all add: Let_def lastIndexOf_absent)

lemma substring_after_last:
  "c \<notin> set seg \<Longrightarrow> substring (pre @ c # seg) (lastIndexOf (pre @ c # seg) c + 1) = seg"
proof -
  assume "c \<notin> set seg"
  then have "lastIndexOf (pre @ c # seg) c + 1 = int (Suc (length pre))"
    by (simp add: lastIndexOf_last)
  then show ?thesis
    unfolding substring_def by (simp only: nat_int) simp
qed

lemma substring_no_separator: "c \<notin> set s \<Longrightarrow> substring s (lastIndexOf s c + 1) = s"
  by (simp add: substring_def lastIndexOf_absent)

subsection \<open>The listing prefix\<close>

text \<open>
  Claim C9 as stated, that the prefix used ends with exactly one separator for every
  \<open>s3Dir\<close>, fails: a directory given with two trailing separators keeps both.
\<close>

theorem dirPrefix_two_separators_counterexample:
  "\<not> (endsWith (dirPrefix ''dir//'') [sep] \<and> \<not> endsWith (dirPrefix ''dir//'') [sep, sep])"
  by (simp add: dirPrefix_def endsWith_def sep_def)

text \<open>
  Claim C9, amended: the prefix used always ends with a separator; it is \<open>s3Dir\<close> itself when
  that ends with a separator and \<open>s3Dir\<close> with one separator added otherwise, and it ends
  with two separators exactly when \<open>s3Dir\<close> already did.
\<close>

theorem dirPrefix_ends_with_separator:
  "endsWith (dirPrefix s3Dir) [sep] \<and>
   (endsWith (dirPrefix s3Dir) [sep, sep] \<longleftrightarrow> endsWith s3Dir [sep, sep]) \<and>
   (endsWith s3Dir [sep] \<longrightarrow> dirPrefix s3Dir = s3Dir) \<and>
   (\<not> endsWith s3Dir [sep] \<longrightarrow> dirPrefix s3Dir = s3Dir @ [sep])"
proof (cases s3Dir rule: rev_cases)
  case Nil
  then show ?thesis by (simp add: dirPrefix_def endsWith_def)
next
  case (snoc ys y)
  then show ?thesis by (auto simp: dirPrefix_def endsWith_def)
qed

theorem dirPrefix_ends_with_separator_witness:
  "dirPrefix ''dir'' = ''dir/'' \<and> dirPrefix ''dir/'' = ''dir/'' \<and> \<not> endsWith (dirPrefix ''dir'') [sep, sep]"
  using dirPrefix_ends_with_separator [of "''dir''"] dirPrefix_ends_with_separator [of "''dir/''"]
  by (simp add: dirPrefix_def endsWith_def sep_def)

subsection \<open>Names\<close>

text \<open>
  Claim C2: an explicit name wins; without one, \<open>preserveFolderStructure\<close> gives the whole
  key; otherwise a file entry gets what follows the last separator (the key itself when it has
  no separator) and a key found under a directory loses the first \<open>length prefix\<close> units, that
  is the prefix. The entries a listing page produces are appended under that directory name.
\<close>

theorem archive_name_precedence:
  "fileArchiveEntryName (Some n) pfs s3Key = n \<and>
   (truthy pfs \<longrightarrow> fileArchiveEntryName None pfs s3Key = s3Key) \<and>
   (\<not> truthy pfs \<longrightarrow> sep \<notin> set seg \<longrightarrow> fileArchiveEntryName None pfs (pre @ sep # seg) = seg) \<and>
   (\<not> truthy pfs \<longrightarrow> sep \<notin> set s3Key \<longrightarrow> fileArchiveEntryName None pfs s3Key = s3Key) \<and>
   (truthy pfs \<longrightarrow> dirArchiveEntryName pfs prefix Key = Key) \<and>
   (\<not> truthy pfs \<longrightarrow> dirArchiveEntryName pfs prefix (prefix @ suffix) = suffix) \<and>
   (\<forall>e \<in> set (pageEntries bucket prefix pfs rest resp).
      fileArchiveEntryName (f_name e) (f_preserveFolderStructure e) (f_s3Key e)
        = dirArchiveEntryName pfs prefix (f_s3Key e))"
  by (auto simp: fileArchiveEntryName_def dirArchiveEntryName_def slice_def
        substring_after_last substring_no_separator pageEntries_def)


theorem archive_name_precedence_witness:
  "fileArchiveEntryName (Some ''n.txt'') None ''a/b/c.txt'' = ''n.txt'' \<and>
   fileArchiveEntryName None (Some True) ''a/b/c.txt'' = ''a/b/c.txt'' \<and>
   fileArchiveEntryName None None ''a/b/c.txt'' = ''c.txt'' \<and>
   fileArchiveEntryName None None ''c.txt'' = ''c.txt'' \<and>
   dirArchiveEntryName (Some True) ''dir/'' ''dir/sub/y.txt'' = ''dir/sub/y.txt'' \<and>
   dirArchiveEntryName None ''dir/'' ''dir/sub/y.txt'' = ''sub/y.txt'' \<and>
   pageEntries ''b'' ''dir/'' None ()
     \<lparr>ContinuationToken = None, KeyCount = Some 1, NextContinuationToken = None,
      Contents = Some [Some ''dir/sub/y.txt''], IsTruncated = Some False\<rparr>
     = [FileEntry (Some ''sub/y.txt'') ''b'' ''dir/sub/y.txt'' None ()]"
  using archive_name_precedence [of "''n.txt''" None "''a/b/c.txt''" "''c.txt''" "''a/b''" "''dir/''"
          "''dir/sub/y.txt''" "''sub/y.txt''" "''b''" "()"
          "\<lparr>ContinuationToken = None, KeyCount = Some 1, NextContinuationToken = None,
            Contents = Some [Some ''dir/sub/y.txt''], IsTruncated = Some False\<rparr>"]
        archive_name_precedence [of "''n.txt''" "Some True" "''a/b/c.txt''" "''c.txt''" "''a/b''" "''dir/''"
          "''dir/sub/y.txt''" "''sub/y.txt''" "''b''" "()"
          "\<lparr>ContinuationToken = None, KeyCount = Some 1, NextContinuationToken = None,
            Contents = Some [Some ''dir/sub/y.txt''], IsTruncated = Some False\<rparr>"]
        archive_name_precedence [where pfs = None and s3Key = "''c.txt''"]
  by (simp add: sep_def pageEntries_def keep_key_def endsWith_def dirArchiveEntryName_def slice_def)

subsection \<open>Invalid keys\<close>

text \<open>
  Claim C7: a file entry whose \<open>s3Key\<close> is empty or ends with a separator makes
  \<open>appendArchiveEntries\<close> reject with \<open>InvalidS3KeyError\<close>; no command is sent for it and
  nothing is appended.
\<close>

theorem invalid_key_rejected_before_fetch:
  "s3Key = [] \<or> endsWith s3Key [sep] \<Longrightarrow>
   appendFileEntry archive s3Client name bucket s3Key pfs rest = rejected [] (InvalidS3KeyError s3Key) \<and>
   result (appendArchiveEntries fuel archive s3Client (FileEntry name bucket s3Key pfs rest # archiveEntries))
     = Some (Inl (InvalidS3KeyError s3Key)) \<and>
   calls (appendArchiveEntries fuel archive s3Client (FileEntry name bucket s3Key pfs rest # archiveEntries)) = [] \<and>
   appended (appendArchiveEntries fuel archive s3Client (FileEntry name bucket s3Key pfs rest # archiveEntries)) = []"
  by (simp add: appendFileEntry_def then_run_def rejected_def)

definition c1 :: S3Client where
  "c1 = \<lparr>listObjectsV2 = (\<lambda>b p t. Inl ''AccessDenied''),
         getObject = (\<lambda>b k. Inr (Some (Readable (b @ ''/'' @ k))))\<rparr>"
definition a0 :: "unit archiver" where "a0 = \<lparr>append_throws = (\<lambda>_. None), finalize_rejects = None\<rparr>"

theorem invalid_key_rejected_before_fetch_witness:
  "endsWith ''folder1/'' [sep] \<and>
   result (appendArchiveEntries 1 quietArchiver pagedStore
     [FileEntry None ''bucket'' ''folder1/'' None (), FileEntry None ''bucket'' ''a.txt'' None ()])
   = Some (Inl (InvalidS3KeyError ''folder1/'')) \<and>
   calls (appendArchiveEntries 1 quietArchiver pagedStore
     [FileEntry None ''bucket'' ''folder1/'' None (), FileEntry None ''bucket'' ''a.txt'' None ()])
   = []"
proof -
  have h: "endsWith ''folder1/'' [sep]"
    by (simp add: endsWith_def sep_def)
  then have h': "''folder1/'' = [] \<or> endsWith ''folder1/'' [sep]" by simp
  show ?thesis
    using h invalid_key_rejected_before_fetch [OF h', of quietArchiver pagedStore
      None "''bucket''" None "()" 1 "[FileEntry None ''bucket'' ''a.txt'' None ()]"]
    by blast
qed

subsection \<open>The client of a bucket\<close>

text \<open>
  Claim C6: a single client serves every bucket; a record of clients gives the client stored
  under the bucket name, and a task whose bucket has none rejects with
  \<open>NoS3ClientProvidedForBucketError\<close> before any command is sent. With a client, the task is
  \<open>appendArchiveEntries\<close> on that client.
\<close>

theorem client_routing:
  "clientFor (OneClient c) bucket = Inr c \<and>
   (m bucket = Some c \<longrightarrow> clientFor (ClientRecord m) bucket = Inr c) \<and>
   (m bucket = None \<longrightarrow>
      clientFor (ClientRecord m) bucket = Inl (NoS3ClientProvidedForBucketError bucket) \<and>
      groupTask fuel archive (ClientRecord m) bucket archiveEntries
        = rejected [] (NoS3ClientProvidedForBucketError bucket)) \<and>
   (clientFor clientOrClients bucket = Inr c \<longrightarrow>
      groupTask fuel archive clientOrClients bucket archiveEntries
        = appendArchiveEntries fuel archive c archiveEntries)"
  by (simp add: clientFor_def groupTask_def)

theorem client_routing_witness:
  "clientFor (ClientRecord [''a'' \<mapsto> pagedStore]) ''a'' = Inr pagedStore \<and>
   groupTask 1 quietArchiver (ClientRecord [''a'' \<mapsto> pagedStore]) ''b'' [FileEntry None ''b'' ''k'' None ()]
     = rejected [] (NoS3ClientProvidedForBucketError ''b'') \<and>
   groupTask 1 quietArchiver (OneClient pagedStore) ''b'' [] = resolved"
  using client_routing [of pagedStore "''a''" "[''a'' \<mapsto> pagedStore]" 1 quietArchiver "[FileEntry None ''b'' ''k'' None ()]"]
        client_routing [of pagedStore "''b''" "[''a'' \<mapsto> pagedStore]" 1 quietArchiver "[FileEntry None ''b'' ''k'' None ()]"]
        client_routing [of pagedStore "''b''" "[''a'' \<mapsto> pagedStore]" 1 quietArchiver "[]" "OneClient pagedStore"]
  by simp

subsection \<open>Errors of the archiver inside the fetch\<close>


lemmas build_eval =
  s3ArchiveStream_def groupedS3Buckets_def groupStep_def objectPrototypeKeys_def
  Object_entries_def isArrayIndex_def groupTask_def clientFor_def appendFileEntry_def
  then_run_def resolved_def rejected_def promiseChain_def settleOrder_def allResolved_def
  endsWith_def sep_def fileArchiveEntryName_def substring_def pagedStore_def quietArchiver_def


lemma settleOrder_Nil: "settleOrder sched [] = []"
  by (simp add: settleOrder_def)

subsection \<open>No entries\<close>

text \<open>
  Claim C10: with an empty list of entries nothing is thrown, there is no task, hence no
  command and no append, and the first call on the writer is \<open>finalize\<close>; whatever the archiver,
  the writer is touched again only if the archiver's own \<open>finalize\<close> rejects. With the writer of
  the specification \<open>finalize\<close> is the only call, so the stream ends with the terminal success
  signal and the container is the archive with no entry.
\<close>

theorem empty_entry_list_finalizes:
  "s3ArchiveStream fuel archive sched clientOrClients []
     = Inr \<lparr>tasks = [],
            writer_ops = Finalize # (case finalize_rejects archive of
                                       None \<Rightarrow> []
                                     | Some m \<Rightarrow> [Destroy (WriterError m), Abort])\<rparr> \<and>
   s3ArchiveStream fuel specWriter sched clientOrClients []
     = Inr \<lparr>tasks = [], writer_ops = [Finalize]\<rparr> \<and>
   (case s3ArchiveStream fuel specWriter sched clientOrClients [] of
      Inl thrown \<Rightarrow> False
    | Inr bld \<Rightarrow> streamOf bld = Closed [])"
  by (simp add: s3ArchiveStream_def groupedS3Buckets_def Object_entries_def promiseChain_def
        settleOrder_Nil allResolved_def specWriter_def streamOf_def)

theorem empty_entry_list_finalizes_witness:
  "s3ArchiveStream 1 (specWriter :: unit archiver) [''a''] (OneClient pagedStore) []
     = Inr \<lparr>tasks = [], writer_ops = [Finalize]\<rparr> \<and>
   streamOf \<lparr>tasks = [], writer_ops = [Finalize]\<rparr> = (Closed [] :: unit stream_end)"
proof -
  note t = empty_entry_list_finalizes [of 1 "specWriter :: unit archiver" "[''a'']" "OneClient pagedStore"]
  from t have a: "s3ArchiveStream 1 (specWriter :: unit archiver) [''a''] (OneClient pagedStore) []
     = Inr \<lparr>tasks = [], writer_ops = [Finalize]\<rparr>"
    by blast
  from t have "case s3ArchiveStream 1 (specWriter :: unit archiver) [''a''] (OneClient pagedStore) [] of
      Inl thrown \<Rightarrow> False
    | Inr bld \<Rightarrow> streamOf bld = Closed []"
    by blast
  then have "streamOf \<lparr>tasks = [], writer_ops = [Finalize]\<rparr> = (Closed [] :: unit stream_end)"
    unfolding a by simp
  with a show ?thesis by blast
qed

subsection \<open>The pagination loop\<close>














subsection \<open>Finalize or abort\<close>

lemma set_settleOrder: "set (settleOrder sched ts) = set ts"
  by (auto simp: settleOrder_def)

lemma firstRejection_Some:
  "firstRejection rs = Some e \<Longrightarrow> \<exists>k r. (k, r) \<in> set rs \<and> result r = Some (Inl e)"
  by (induction rs rule: firstRejection.induct)
     (auto split: option.splits sum.splits)

lemma firstRejection_None:
  "firstRejection rs = None \<longleftrightarrow> (\<forall>(k, r) \<in> set rs. \<forall>e. result r \<noteq> Some (Inl e))"
  by (induction rs rule: firstRejection.induct)
     (auto split: option.splits sum.splits)

lemma allResolved_no_rejection:
  "allResolved ts \<Longrightarrow> firstRejection (settleOrder sched ts) = None"
  unfolding firstRejection_None set_settleOrder
  by (auto simp: allResolved_def list_all_iff)

lemma promiseChain_cases:
  "promiseChain archive sched ts =
     (if allResolved ts
      then Finalize # (case finalize_rejects archive of
                         None \<Rightarrow> []
                       | Some m \<Rightarrow> [Destroy (WriterError m), Abort])
      else case firstRejection (settleOrder sched ts) of
             Some e \<Rightarrow> [Destroy e, Abort]
           | None \<Rightarrow> [])"
  by (auto simp: promiseChain_def allResolved_no_rejection split: option.splits)

lemma rejected_task_first:
  assumes "(k, r) \<in> set ts" and "result r = Some (Inl e)"
  shows "\<not> allResolved ts \<and> (\<exists>e'. firstRejection (settleOrder sched ts) = Some e')"
proof -
  from assms have "\<not> allResolved ts"
    by (force simp: allResolved_def list_all_iff)
  moreover have "firstRejection (settleOrder sched ts) \<noteq> None"
    unfolding firstRejection_None set_settleOrder using assms by blast
  ultimately show ?thesis by auto
qed

text \<open>
  Once the grouping has gone through, whatever the clients, the archiver and the order in
  which the tasks settle: \<open>finalize\<close> is called exactly when every task resolved, then once and
  before anything else; when some task rejected, the writer gets \<open>destroy(e)\<close> and \<open>abort()\<close> and
  nothing else, \<open>e\<close> being the rejection of the first rejected task in settling order. A
  rejection of a task is never thrown out of \<open>s3ArchiveStream\<close>: an exception that leaves the
  function is one of the grouping \<open>reduce\<close>.
\<close>

lemma writer_calls_of_build:
  "(case s3ArchiveStream fuel archive sched clientOrClients entries of
      Inl thrown \<Rightarrow> groupedS3Buckets entries = Inl thrown
    | Inr bld \<Rightarrow>
        (\<exists>groups. groupedS3Buckets entries = Inr groups \<and>
           tasks bld = map (\<lambda>(bucket, archiveEntries).
                              (bucket, groupTask fuel archive clientOrClients bucket archiveEntries))
                           (Object_entries groups)) \<and>
        (Finalize \<in> set (writer_ops bld) \<longleftrightarrow> allResolved (tasks bld)) \<and>
        count_list (writer_ops bld) Finalize = (if allResolved (tasks bld) then 1 else 0) \<and>
        (allResolved (tasks bld) \<longrightarrow> hd (writer_ops bld) = Finalize) \<and>
        ((\<exists>k r e. (k, r) \<in> set (tasks bld) \<and> result r = Some (Inl e)) \<longrightarrow>
           (\<exists>k r e. (k, r) \<in> set (tasks bld) \<and> result r = Some (Inl e) \<and>
              firstRejection (settleOrder sched (tasks bld)) = Some e \<and>
              writer_ops bld = [Destroy e, Abort])))"
proof (cases "groupedS3Buckets entries")
  case (Inl thrown)
  then show ?thesis by (simp add: s3ArchiveStream_def)
next
  case (Inr groups)
  define ts where "ts = map (\<lambda>(bucket, archiveEntries).
                              (bucket, groupTask fuel archive clientOrClients bucket archiveEntries))
                           (Object_entries groups)"
  define ops where "ops = promiseChain archive sched ts"
  have run: "s3ArchiveStream fuel archive sched clientOrClients entries
               = Inr \<lparr>tasks = ts, writer_ops = ops\<rparr>"
    using Inr by (simp add: s3ArchiveStream_def ts_def ops_def Let_def)
  have fin: "Finalize \<in> set ops \<longleftrightarrow> allResolved ts"
    unfolding ops_def promiseChain_cases by (auto split: option.splits)
  have cnt: "count_list ops Finalize = (if allResolved ts then 1 else 0)"
    unfolding ops_def promiseChain_cases by (auto split: option.splits)
  have hd: "allResolved ts \<longrightarrow> hd ops = Finalize"
    unfolding ops_def promiseChain_cases by simp
  have rej: "\<exists>k r e. (k, r) \<in> set ts \<and> result r = Some (Inl e) \<and>
              firstRejection (settleOrder sched ts) = Some e \<and> ops = [Destroy e, Abort]"
    if "(k, r) \<in> set ts" and "result r = Some (Inl e)" for k r e
  proof -
    from rejected_task_first [OF that] obtain e' where
      nr: "\<not> allResolved ts" and e': "firstRejection (settleOrder sched ts) = Some e'"
      by blast
    from firstRejection_Some [OF e'] obtain k' r' where
      "(k', r') \<in> set ts" "result r' = Some (Inl e')"
      unfolding set_settleOrder by blast
    moreover from nr e' have "ops = [Destroy e', Abort]"
      unfolding ops_def promiseChain_cases by simp
    ultimately show ?thesis using e' by blast
  qed
  show ?thesis
    unfolding run using Inr fin cnt hd rej
    by (simp add: ts_def) blast
qed


lemma writer_calls_of_build_example:
  "s3ArchiveStream 1 quietArchiver [] (OneClient pagedStore)
     [FileEntry None ''a'' ''x.txt'' None (), FileEntry None ''b'' ''d/y.txt'' None ()]
   = Inr \<lparr>tasks =
            [(''a'', \<lparr>calls = [GetObjectCommand ''a'' ''x.txt''],
                      appended = [\<lparr>source = ''a/x.txt'', entry_name = ''x.txt'', entry_data = ()\<rparr>],
                      result = Some (Inr ())\<rparr>),
             (''b'', \<lparr>calls = [GetObjectCommand ''b'' ''d/y.txt''],
                      appended = [\<lparr>source = ''b/d/y.txt'', entry_name = ''y.txt'', entry_data = ()\<rparr>],
                      result = Some (Inr ())\<rparr>)],
          writer_ops = [Finalize]\<rparr> \<and>
   s3ArchiveStream 1 quietArchiver [] (ClientRecord [''a'' \<mapsto> pagedStore])
     [FileEntry None ''a'' ''x.txt'' None (), FileEntry None ''b'' ''d/y.txt'' None ()]
   = Inr \<lparr>tasks =
            [(''a'', \<lparr>calls = [GetObjectCommand ''a'' ''x.txt''],
                      appended = [\<lparr>source = ''a/x.txt'', entry_name = ''x.txt'', entry_data = ()\<rparr>],
                      result = Some (Inr ())\<rparr>),
             (''b'', \<lparr>calls = [], appended = [],
                      result = Some (Inl (NoS3ClientProvidedForBucketError ''b''))\<rparr>)],
          writer_ops = [Destroy (NoS3ClientProvidedForBucketError ''b''), Abort]\<rparr>"
proof -
  have ev1: "s3ArchiveStream 1 quietArchiver [] (OneClient pagedStore)
     [FileEntry None ''a'' ''x.txt'' None (), FileEntry None ''b'' ''d/y.txt'' None ()]
   = Inr \<lparr>tasks =
            [(''a'', \<lparr>calls = [GetObjectCommand ''a'' ''x.txt''],
                      appended = [\<lparr>source = ''a/x.txt'', entry_name = ''x.txt'', entry_data = ()\<rparr>],
                      result = Some (Inr ())\<rparr>),
             (''b'', \<lparr>calls = [GetObjectCommand ''b'' ''d/y.txt''],
                      appended = [\<lparr>source = ''b/d/y.txt'', entry_name = ''y.txt'', entry_data = ()\<rparr>],
                      result = Some (Inr ())\<rparr>)],
          writer_ops = [Finalize]\<rparr>"
    by (simp add: build_eval Let_def)
  have ev2: "s3ArchiveStream 1 quietArchiver [] (ClientRecord [''a'' \<mapsto> pagedStore])
     [FileEntry None ''a'' ''x.txt'' None (), FileEntry None ''b'' ''d/y.txt'' None ()]
   = Inr \<lparr>tasks =
            [(''a'', \<lparr>calls = [GetObjectCommand ''a'' ''x.txt''],
                      appended = [\<lparr>source = ''a/x.txt'', entry_name = ''x.txt'', entry_data = ()\<rparr>],
                      result = Some (Inr ())\<rparr>),
             (''b'', \<lparr>calls = [], appended = [],
                      result = Some (Inl (NoS3ClientProvidedForBucketError ''b''))\<rparr>)],
          writer_ops = [Destroy (NoS3ClientProvidedForBucketError ''b''), Abort]\<rparr>"
    by (simp add: build_eval Let_def)
  show ?thesis
    using ev1 ev2
      writer_calls_of_build [where fuel = 1 and archive = quietArchiver and sched = "[]"
          and clientOrClients = "OneClient pagedStore" and entries =
          "[FileEntry None ''a'' ''x.txt'' None (), FileEntry None ''b'' ''d/y.txt'' None ()]"]
      writer_calls_of_build [where fuel = 1 and archive = quietArchiver and sched = "[]"
          and clientOrClients = "ClientRecord [''a'' \<mapsto> pagedStore]" and entries =
          "[FileEntry None ''a'' ''x.txt'' None (), FileEntry None ''b'' ''d/y.txt'' None ()]"]
    by blast
qed

text \<open>
  Claim C1 says that for every build an error reaches the caller only as the terminal error
  state of the returned stream. The grouping of lines 202-208 looks the bucket name up in an
  object literal: for the bucket name \<open>constructor\<close> the lookup finds a function of
  \<open>Object.prototype\<close>, no array is stored and \<open>.push\<close> throws a \<open>TypeError\<close> out of
  \<open>s3ArchiveStream\<close> itself, before any task exists: no archive is returned, and the writer is
  neither finalized nor aborted.
\<close>

theorem prototype_bucket_name_throws:
  "s3ArchiveStream fuel archive sched clientOrClients
     (FileEntry name ''constructor'' s3Key pfs rest # entries)
   = Inl (TypeError ''acc[val.s3BucketName].push is not a function'')"
  by (simp add: s3ArchiveStream_def groupedS3Buckets_def groupStep_def objectPrototypeKeys_def
        push_not_a_function_def)

subsection \<open>Order of the appended entries\<close>

lemma then_run_resolved: "then_run r resolved = r"
  by (cases r) (auto simp: then_run_def resolved_def split: option.splits sum.splits)

lemma then_run_assoc: "then_run (then_run r1 r2) r3 = then_run r1 (then_run r2 r3)"
  by (auto simp: then_run_def split: option.splits sum.splits)

lemma appendArchiveEntries_Cons:
  "appendArchiveEntries fuel archive c (e # es)
     = then_run (appendArchiveEntries fuel archive c [e]) (appendArchiveEntries fuel archive c es)"
proof (cases e)
  case (FileEntry n b k p r)
  then show ?thesis by (simp add: then_run_resolved)
next
  case (DirEntry b d p r)
  show ?thesis
  proof (cases "listLoop fuel c b (dirPrefix d) p r None []")
    case (Pair cs res)
    show ?thesis
    proof (cases res)
      case None
      with Pair DirEntry show ?thesis by (simp add: then_run_def)
    next
      case (Some v)
      show ?thesis
      proof (cases v)
        case (Inl err)
        with Some Pair DirEntry show ?thesis by (simp add: then_run_def rejected_def)
      next
        case (Inr directoryEntries)
        with Some Pair DirEntry show ?thesis
          by (simp add: then_run_resolved then_run_assoc)
      qed
    qed
  qed
qed

lemma then_run_result:
  "result (then_run r1 r2) = Some (Inr ()) \<longleftrightarrow> result r1 = Some (Inr ()) \<and> result r2 = Some (Inr ())"
  by (auto simp: then_run_def split: option.splits sum.splits)

lemma then_run_appended:
  "appended (then_run r1 r2)
     = (if result r1 = Some (Inr ()) then appended r1 @ appended r2 else appended r1)"
  by (auto simp: then_run_def split: option.splits sum.splits)

lemma then_run_calls:
  "calls (then_run r1 r2)
     = (if result r1 = Some (Inr ()) then calls r1 @ calls r2 else calls r1)"
  by (auto simp: then_run_def split: option.splits sum.splits)

lemma appended_in_entry_order:
  "\<exists>later. concat (map (\<lambda>e. appended (appendArchiveEntries fuel archive c [e])) es)
            = appended (appendArchiveEntries fuel archive c es) @ later \<and>
           (result (appendArchiveEntries fuel archive c es) = Some (Inr ()) \<longrightarrow> later = [])"
proof (induction es)
  case Nil
  then show ?case by (simp add: resolved_def)
next
  case (Cons e es)
  then obtain later where
    l: "concat (map (\<lambda>e. appended (appendArchiveEntries fuel archive c [e])) es)
          = appended (appendArchiveEntries fuel archive c es) @ later"
       "result (appendArchiveEntries fuel archive c es) = Some (Inr ()) \<longrightarrow> later = []"
    by blast
  show ?case
  proof (cases "result (appendArchiveEntries fuel archive c [e]) = Some (Inr ())")
    case True
    with l show ?thesis
      by (subst (2 3) appendArchiveEntries_Cons)
         (simp add: then_run_appended then_run_result del: appendArchiveEntries.simps)
  next
    case False
    with l show ?thesis
      by (subst (2 3) appendArchiveEntries_Cons)
         (simp add: then_run_appended then_run_result del: appendArchiveEntries.simps)
  qed
qed


lemma groupStep_grouping:
  assumes "groupStep acc v = Inr acc'"
    and "distinct (map fst acc)"
    and "fst ` set acc = s3BucketName ` set pre"
    and "\<forall>(b, es) \<in> set acc. es = filter (\<lambda>e. s3BucketName e = b) pre"
  shows "distinct (map fst acc') \<and> fst ` set acc' = s3BucketName ` set (pre @ [v]) \<and>
         (\<forall>(b, es) \<in> set acc'. es = filter (\<lambda>e. s3BucketName e = b) (pre @ [v]))"
proof (cases "map_of acc (s3BucketName v)")
  case None
  then have fresh: "s3BucketName v \<notin> fst ` set acc"
    by (simp add: map_of_eq_None_iff)
  with assms(1) None have acc': "acc' = acc @ [(s3BucketName v, [v])]"
    by (simp add: groupStep_def Let_def split: if_splits)
  from fresh assms(3) have "\<forall>e \<in> set pre. s3BucketName e \<noteq> s3BucketName v"
    by (metis imageI)
  then have "filter (\<lambda>e. s3BucketName e = s3BucketName v) pre = []"
    by (simp add: filter_empty_conv)
  then have new: "filter (\<lambda>e. s3BucketName e = s3BucketName v) (pre @ [v]) = [v]"
    by simp
  have d: "distinct (map fst acc')"
    using fresh assms(2) unfolding acc' by simp
  have k: "fst ` set acc' = s3BucketName ` set (pre @ [v])"
    using assms(3) unfolding acc' by auto
  have "es = filter (\<lambda>e. s3BucketName e = b) (pre @ [v])" if "(b, es) \<in> set acc'" for b es
  proof (cases "(b, es) \<in> set acc")
    case True
    then have "b \<noteq> s3BucketName v" using fresh by force
    moreover from True assms(4) have "es = filter (\<lambda>e. s3BucketName e = b) pre" by blast
    ultimately show ?thesis by simp
  next
    case False
    with that have "b = s3BucketName v" "es = [v]" unfolding acc' by auto
    with new show ?thesis by simp
  qed
  with d k show ?thesis by blast
next
  case (Some es)
  with assms(1) have acc':
    "acc' = map (\<lambda>(k, x). if k = s3BucketName v then (k, x @ [v]) else (k, x)) acc"
    by (simp add: groupStep_def Let_def)
  have keys: "map fst acc' = map fst acc"
    unfolding acc' by (induction acc) auto
  from Some have "s3BucketName v \<in> fst ` set acc"
    by (metis map_of_eq_None_iff option.distinct(1))
  then have "fst ` set acc' = s3BucketName ` set (pre @ [v])"
    using keys assms(3) by (metis (no_types, lifting) image_insert image_set insert_absorb
        list.set(2) rotate1.simps(2) set_rotate1)
  moreover have "x = filter (\<lambda>e. s3BucketName e = b) (pre @ [v])" if "(b, x) \<in> set acc'" for b x
  proof -
    from that obtain k y where ky: "(k, y) \<in> set acc"
      and bx: "(b, x) = (if k = s3BucketName v then (k, y @ [v]) else (k, y))"
      unfolding acc' by auto
    from ky assms(4) have "y = filter (\<lambda>e. s3BucketName e = k) pre" by blast
    with bx show ?thesis by (cases "k = s3BucketName v") auto
  qed
  ultimately show ?thesis using keys assms(2) by auto
qed

lemma reduceGroups_grouping:
  "reduceGroups acc vals = Inr groups \<Longrightarrow> distinct (map fst acc) \<Longrightarrow>
   fst ` set acc = s3BucketName ` set pre \<Longrightarrow>
   \<forall>(b, es) \<in> set acc. es = filter (\<lambda>e. s3BucketName e = b) pre \<Longrightarrow>
   distinct (map fst groups) \<and> fst ` set groups = s3BucketName ` set (pre @ vals) \<and>
   (\<forall>(b, es) \<in> set groups. es = filter (\<lambda>e. s3BucketName e = b) (pre @ vals))"
proof (induction vals arbitrary: acc pre)
  case Nil
  then show ?case by simp
next
  case (Cons v vals)
  from Cons.prems(1) obtain acc' where
    step: "groupStep acc v = Inr acc'" and rest: "reduceGroups acc' vals = Inr groups"
    by (auto split: sum.splits)
  from groupStep_grouping [OF step Cons.prems(2,3,4)]
  have "distinct (map fst acc')" "fst ` set acc' = s3BucketName ` set (pre @ [v])"
    "\<forall>(b, es) \<in> set acc'. es = filter (\<lambda>e. s3BucketName e = b) (pre @ [v])"
    by blast+
  from Cons.IH [OF rest this] show ?case by simp
qed

lemma groupedS3Buckets_grouping:
  "groupedS3Buckets entries = Inr groups \<Longrightarrow>
   distinct (map fst groups) \<and> fst ` set groups = s3BucketName ` set entries \<and>
   (\<forall>(b, es) \<in> set groups. es = filter (\<lambda>e. s3BucketName e = b) entries)"
  using reduceGroups_grouping [of "[]" entries groups "[]"]
  by (simp add: groupedS3Buckets_def)


lemma appendFileEntry_resolved:
  "result (appendFileEntry archive c n b k p r) = Some (Inr ()) \<Longrightarrow>
   map entry_name (appended (appendFileEntry archive c n b k p r)) = [fileArchiveEntryName n p k] \<and>
   calls (appendFileEntry archive c n b k p r) = [GetObjectCommand b k]"
  by (auto simp: appendFileEntry_def rejected_def Let_def
           split: if_splits sum.splits option.splits body.splits)

lemma files_appended_in_order:
  "\<forall>e \<in> set es. \<not> is_dir e \<Longrightarrow>
   result (appendArchiveEntries fuel archive c es) = Some (Inr ()) \<Longrightarrow>
   map entry_name (appended (appendArchiveEntries fuel archive c es))
     = map (\<lambda>e. fileArchiveEntryName (f_name e) (f_preserveFolderStructure e) (f_s3Key e)) es \<and>
   calls (appendArchiveEntries fuel archive c es)
     = map (\<lambda>e. GetObjectCommand (s3BucketName e) (f_s3Key e)) es"
proof (induction es)
  case Nil
  then show ?case by (simp add: resolved_def)
next
  case (Cons e es)
  from Cons.prems(1) obtain n b k p r where e: "e = FileEntry n b k p r"
    by (cases e) auto
  from Cons.prems(2) have
    r1: "result (appendFileEntry archive c n b k p r) = Some (Inr ())" and
    r2: "result (appendArchiveEntries fuel archive c es) = Some (Inr ())"
    unfolding e by (simp_all add: then_run_result)
  from Cons.IH [OF _ r2] Cons.prems(1) appendFileEntry_resolved [OF r1] r1
  show ?case unfolding e by (simp add: then_run_appended then_run_calls)
qed

lemma Object_entries_single: "Object_entries [(k, v)] = [(k, v)]"
  by (simp add: Object_entries_def)

lemma single_group:
  assumes "entries \<noteq> []" and "\<forall>e \<in> set entries. s3BucketName e = bucket"
    and "groupedS3Buckets entries = Inr groups"
  shows "groups = [(bucket, entries)]"
proof -
  from groupedS3Buckets_grouping [OF assms(3)] have
    d: "distinct (map fst groups)" and k: "fst ` set groups = s3BucketName ` set entries" and
    g: "\<forall>(b, es) \<in> set groups. es = filter (\<lambda>e. s3BucketName e = b) entries"
    by blast+
  from assms(1,2) have "s3BucketName ` set entries = {bucket}" by (cases entries) auto
  with k have "set (map fst groups) = {bucket}" by simp
  with d have "length (map fst groups) = 1"
    by (metis One_nat_def card.empty card_insert_disjoint distinct_card empty_iff finite.emptyI)
  then obtain b es where groups: "groups = [(b, es)]"
    by (cases groups) auto
  with k \<open>s3BucketName ` set entries = {bucket}\<close> have b: "b = bucket" by simp
  from g groups have "es = filter (\<lambda>e. s3BucketName e = b) entries" by simp
  with b assms(2) have "es = entries" by (simp add: filter_id_conv)
  with b show ?thesis using groups by simp
qed


text \<open>
  Claim C5. The group of a bucket is the input list restricted to that bucket, in input order.
  Within one run of \<open>appendArchiveEntries\<close> what is appended is, entry after entry in the order
  of the list, what each entry appends on its own: all of it when the run resolves, an initial
  part of it otherwise. What a directory entry appends on its own is what the entries found by
  its listing append, so they stand together where the directory entry stood. For a non-empty
  list of file entries of one bucket there is one task, and when it resolves the names appended
  and the objects fetched are those of the input, in input order.
\<close>

theorem append_order:
  "(groupedS3Buckets entries = Inr groups \<longrightarrow>
      distinct (map fst groups) \<and> fst ` set groups = s3BucketName ` set entries \<and>
      (\<forall>(b, es) \<in> set groups. es = filter (\<lambda>e. s3BucketName e = b) entries)) \<and>
   (\<exists>later. concat (map (\<lambda>e. appended (appendArchiveEntries fuel archive c [e])) archiveEntries)
               = appended (appendArchiveEntries fuel archive c archiveEntries) @ later \<and>
             (result (appendArchiveEntries fuel archive c archiveEntries) = Some (Inr ()) \<longrightarrow>
              later = [])) \<and>
   (listLoop fuel c bucket (dirPrefix s3Dir) pfs rest None [] = (cs, Some (Inr directoryEntries)) \<longrightarrow>
      appended (appendArchiveEntries fuel archive c [DirEntry bucket s3Dir pfs rest])
        = appended (appendArchiveEntries fuel archive c directoryEntries)) \<and>
   (entries \<noteq> [] \<and> (\<forall>e \<in> set entries. \<not> is_dir e \<and> s3BucketName e = bucket) \<and>
    s3ArchiveStream fuel archive sched clientOrClients entries = Inr bld \<longrightarrow>
      (\<exists>r. tasks bld = [(bucket, r)] \<and>
         (result r = Some (Inr ()) \<longrightarrow>
            map entry_name (appended r)
              = map (\<lambda>e. fileArchiveEntryName (f_name e) (f_preserveFolderStructure e) (f_s3Key e))
                    entries \<and>
            calls r = map (\<lambda>e. GetObjectCommand bucket (f_s3Key e)) entries)))"
proof (intro conjI)
  show "groupedS3Buckets entries = Inr groups \<longrightarrow>
      distinct (map fst groups) \<and> fst ` set groups = s3BucketName ` set entries \<and>
      (\<forall>(b, es) \<in> set groups. es = filter (\<lambda>e. s3BucketName e = b) entries)"
    using groupedS3Buckets_grouping by blast
next
  show "\<exists>later. concat (map (\<lambda>e. appended (appendArchiveEntries fuel archive c [e])) archiveEntries)
               = appended (appendArchiveEntries fuel archive c archiveEntries) @ later \<and>
             (result (appendArchiveEntries fuel archive c archiveEntries) = Some (Inr ()) \<longrightarrow>
              later = [])"
    by (rule appended_in_entry_order)
next
  show "listLoop fuel c bucket (dirPrefix s3Dir) pfs rest None [] = (cs, Some (Inr directoryEntries)) \<longrightarrow>
      appended (appendArchiveEntries fuel archive c [DirEntry bucket s3Dir pfs rest])
        = appended (appendArchiveEntries fuel archive c directoryEntries)"
    by (simp add: then_run_resolved then_run_appended)
next
  show "entries \<noteq> [] \<and> (\<forall>e \<in> set entries. \<not> is_dir e \<and> s3BucketName e = bucket) \<and>
    s3ArchiveStream fuel archive sched clientOrClients entries = Inr bld \<longrightarrow>
      (\<exists>r. tasks bld = [(bucket, r)] \<and>
         (result r = Some (Inr ()) \<longrightarrow>
            map entry_name (appended r)
              = map (\<lambda>e. fileArchiveEntryName (f_name e) (f_preserveFolderStructure e) (f_s3Key e))
                    entries \<and>
            calls r = map (\<lambda>e. GetObjectCommand bucket (f_s3Key e)) entries))"
  proof (intro impI, elim conjE)
    assume ne: "entries \<noteq> []"
      and files: "\<forall>e \<in> set entries. \<not> is_dir e \<and> s3BucketName e = bucket"
      and run: "s3ArchiveStream fuel archive sched clientOrClients entries = Inr bld"
    from run obtain gs where gs: "groupedS3Buckets entries = Inr gs"
      by (cases "groupedS3Buckets entries") (auto simp: s3ArchiveStream_def)
    from files have "\<forall>e \<in> set entries. s3BucketName e = bucket" by blast
    from single_group [OF ne this gs] have gs1: "gs = [(bucket, entries)]" .
    let ?r = "groupTask fuel archive clientOrClients bucket entries"
    from run gs have t: "tasks bld = [(bucket, ?r)]"
      unfolding gs1 by (auto simp: s3ArchiveStream_def Object_entries_single Let_def)
    have "map entry_name (appended ?r)
              = map (\<lambda>e. fileArchiveEntryName (f_name e) (f_preserveFolderStructure e) (f_s3Key e))
                    entries \<and>
          calls ?r = map (\<lambda>e. GetObjectCommand bucket (f_s3Key e)) entries"
      if ok: "result ?r = Some (Inr ())"
    proof (cases "clientFor clientOrClients bucket")
      case (Inl e)
      with ok show ?thesis by (simp add: groupTask_def rejected_def)
    next
      case (Inr client)
      then have r: "?r = appendArchiveEntries fuel archive client entries"
        by (simp add: groupTask_def)
      from files have nd: "\<forall>e \<in> set entries. \<not> is_dir e" by blast
      from files have "map (\<lambda>e. GetObjectCommand (s3BucketName e) (f_s3Key e)) entries
          = map (\<lambda>e. GetObjectCommand bucket (f_s3Key e)) entries"
        by simp
      with files_appended_in_order [OF nd, of fuel archive client] ok show ?thesis
        unfolding r by simp
    qed
    with t show "\<exists>r. tasks bld = [(bucket, r)] \<and>
         (result r = Some (Inr ()) \<longrightarrow>
            map entry_name (appended r)
              = map (\<lambda>e. fileArchiveEntryName (f_name e) (f_preserveFolderStructure e) (f_s3Key e))
                    entries \<and>
            calls r = map (\<lambda>e. GetObjectCommand bucket (f_s3Key e)) entries)"
      by blast
  qed
qed


theorem append_order_witness:
  "groupedS3Buckets [FileEntry None ''a'' ''x/1.txt'' None (), FileEntry None ''b'' ''2.txt'' None (),
                     FileEntry None ''a'' ''3.txt'' None ()]
     = Inr [(''a'', [FileEntry None ''a'' ''x/1.txt'' None (), FileEntry None ''a'' ''3.txt'' None ()]),
            (''b'', [FileEntry None ''b'' ''2.txt'' None ()])] \<and>
   result (appendArchiveEntries 2 quietArchiver pagedStore
             [FileEntry None ''a'' ''x/1.txt'' None (), DirEntry ''a'' ''folder1'' None (),
              FileEntry None ''a'' ''3.txt'' None ()]) = Some (Inr ()) \<and>
   map entry_name (appended (appendArchiveEntries 2 quietArchiver pagedStore
             [FileEntry None ''a'' ''x/1.txt'' None (), DirEntry ''a'' ''folder1'' None (),
              FileEntry None ''a'' ''3.txt'' None ()]))
     = [''1.txt'', ''file1.txt'', ''folder2/file2.txt'', ''3.txt''] \<and>
   s3ArchiveStream 1 quietArchiver [] (OneClient pagedStore)
     [FileEntry None ''a'' ''x/1.txt'' None (), FileEntry (Some ''two'') ''a'' ''2.txt'' None ()]
     = Inr \<lparr>tasks =
              [(''a'', \<lparr>calls = [GetObjectCommand ''a'' ''x/1.txt'', GetObjectCommand ''a'' ''2.txt''],
                        appended = [\<lparr>source = ''a/x/1.txt'', entry_name = ''1.txt'', entry_data = ()\<rparr>,
                                    \<lparr>source = ''a/2.txt'', entry_name = ''two'', entry_data = ()\<rparr>],
                        result = Some (Inr ())\<rparr>)],
            writer_ops = [Finalize]\<rparr>"
proof -
  have ev1: "groupedS3Buckets [FileEntry None ''a'' ''x/1.txt'' None (), FileEntry None ''b'' ''2.txt'' None (),
                     FileEntry None ''a'' ''3.txt'' None ()]
     = Inr [(''a'', [FileEntry None ''a'' ''x/1.txt'' None (), FileEntry None ''a'' ''3.txt'' None ()]),
            (''b'', [FileEntry None ''b'' ''2.txt'' None ()])]"
    by (simp add: groupedS3Buckets_def groupStep_def objectPrototypeKeys_def Let_def)
  have ev2: "appendArchiveEntries 2 quietArchiver pagedStore
             [FileEntry None ''a'' ''x/1.txt'' None (), DirEntry ''a'' ''folder1'' None (),
              FileEntry None ''a'' ''3.txt'' None ()]
     = \<lparr>calls = [GetObjectCommand ''a'' ''x/1.txt'',
                 ListObjectsV2Command ''a'' ''folder1/'' None,
                 ListObjectsV2Command ''a'' ''folder1/'' (Some ''t1''),
                 GetObjectCommand ''a'' ''folder1/file1.txt'',
                 GetObjectCommand ''a'' ''folder1/folder2/file2.txt'',
                 GetObjectCommand ''a'' ''3.txt''],
        appended = [\<lparr>source = ''a/x/1.txt'', entry_name = ''1.txt'', entry_data = ()\<rparr>,
                    \<lparr>source = ''a/folder1/file1.txt'', entry_name = ''file1.txt'', entry_data = ()\<rparr>,
                    \<lparr>source = ''a/folder1/folder2/file2.txt'', entry_name = ''folder2/file2.txt'',
                     entry_data = ()\<rparr>,
                    \<lparr>source = ''a/3.txt'', entry_name = ''3.txt'', entry_data = ()\<rparr>],
        result = Some (Inr ())\<rparr>"
    by (simp add: build_eval Let_def numeral_2_eq_2 dirPrefix_def page1_def page2_def
          pageEntries_def keep_key_def dirArchiveEntryName_def slice_def)
  have ev3: "s3ArchiveStream 1 quietArchiver [] (OneClient pagedStore)
     [FileEntry None ''a'' ''x/1.txt'' None (), FileEntry (Some ''two'') ''a'' ''2.txt'' None ()]
     = Inr \<lparr>tasks =
              [(''a'', \<lparr>calls = [GetObjectCommand ''a'' ''x/1.txt'', GetObjectCommand ''a'' ''2.txt''],
                        appended = [\<lparr>source = ''a/x/1.txt'', entry_name = ''1.txt'', entry_data = ()\<rparr>,
                                    \<lparr>source = ''a/2.txt'', entry_name = ''two'', entry_data = ()\<rparr>],
                        result = Some (Inr ())\<rparr>)],
            writer_ops = [Finalize]\<rparr>"
    by (simp add: build_eval Let_def)
  have names: "map entry_name (appended (appendArchiveEntries 2 quietArchiver pagedStore
             [FileEntry None ''a'' ''x/1.txt'' None (), DirEntry ''a'' ''folder1'' None (),
              FileEntry None ''a'' ''3.txt'' None ()]))
     = [''1.txt'', ''file1.txt'', ''folder2/file2.txt'', ''3.txt'']"
    unfolding ev2 by simp
  have res: "result (appendArchiveEntries 2 quietArchiver pagedStore
             [FileEntry None ''a'' ''x/1.txt'' None (), DirEntry ''a'' ''folder1'' None (),
              FileEntry None ''a'' ''3.txt'' None ()]) = Some (Inr ())"
    unfolding ev2 by simp
  show ?thesis
    using ev1 res names ev3
      append_order [where entries = "[FileEntry None ''a'' ''x/1.txt'' None (),
            FileEntry None ''b'' ''2.txt'' None (), FileEntry None ''a'' ''3.txt'' None ()]"
          and groups = "[(''a'', [FileEntry None ''a'' ''x/1.txt'' None (), FileEntry None ''a'' ''3.txt'' None ()]),
            (''b'', [FileEntry None ''b'' ''2.txt'' None ()])]"
          and fuel = 2 and archive = quietArchiver and c = pagedStore
          and archiveEntries = "[FileEntry None ''a'' ''x/1.txt'' None (), DirEntry ''a'' ''folder1'' None (),
              FileEntry None ''a'' ''3.txt'' None ()]"
          and bucket = "''a''" and s3Dir = "''folder1''" and pfs = None and rest = "()"]
      append_order [where entries = "[FileEntry None ''a'' ''x/1.txt'' None (),
            FileEntry (Some ''two'') ''a'' ''2.txt'' None ()]"
          and fuel = 1 and archive = quietArchiver and sched = "[]"
          and clientOrClients = "OneClient pagedStore" and bucket = "''a''"]
    by blast
qed

end
